theory Spec2Isabelle
  imports Complex_Main "HOL-Library.AList" "HOL-Library.Multiset"
    "HOL-Library.List_Lexorder" "HOL-Library.Char_ord"
begin

section \<open>The cache of cache.py\<close>

text \<open>
  Clock readings (\<^verbatim>\<open>time.time()\<close>) are passed to every operation as arguments, one
  argument for each call of the clock the source makes, and are modelled as exact real
  numbers. A Python \<^verbatim>\<open>dict\<close> keeps its keys in insertion order, and
  \<^verbatim>\<open>min\<close> over the keys depends on that order, so the mapping of the cache is an
  association list: \<^const>\<open>AList.update\<close> replaces the value of a key in place or
  appends a new key at the end, as \<^verbatim>\<open>d[k] = v\<close> does, and \<^const>\<open>AList.delete\<close> is
  \<^verbatim>\<open>del d[k]\<close>.
\<close>

record 'v CacheEntry =
  e_value :: 'v
  e_created_at :: real
  e_ttl_seconds :: int
  e_access_count :: int
  e_last_accessed :: real

text \<open>The three counters of the \<^verbatim>\<open>stats\<close> dictionary are fields of the cache record.\<close>

record 'v MemoryCache =
  max_size :: int
  default_ttl :: int
  cache :: "(string \<times> 'v CacheEntry) list"
  hits :: int
  misses :: int
  evictions :: int

text \<open>\<^verbatim>\<open>CacheEntry.__init__\<close>, with the clock reading it takes.\<close>

definition new_entry :: "'v \<Rightarrow> int \<Rightarrow> real \<Rightarrow> 'v CacheEntry" where
  "new_entry v ttl now =
     \<lparr>e_value = v, e_created_at = now, e_ttl_seconds = ttl,
      e_access_count = 0, e_last_accessed = now\<rparr>"

definition is_expired :: "'v CacheEntry \<Rightarrow> real \<Rightarrow> bool" where
  "is_expired e now \<longleftrightarrow> now - e_created_at e > real_of_int (e_ttl_seconds e)"

definition access :: "'v CacheEntry \<Rightarrow> real \<Rightarrow> 'v \<times> 'v CacheEntry" where
  "access e now =
     (e_value e, e\<lparr>e_access_count := e_access_count e + 1, e_last_accessed := now\<rparr>)"

text \<open>\<^verbatim>\<open>MemoryCache.__init__\<close>.\<close>

definition new_cache :: "int \<Rightarrow> int \<Rightarrow> 'v MemoryCache" where
  "new_cache ms dt =
     \<lparr>max_size = ms, default_ttl = dt, cache = [], hits = 0, misses = 0, evictions = 0\<rparr>"

text \<open>
  \<^verbatim>\<open>MemoryCache.get\<close>. The first clock reading is the one of \<^verbatim>\<open>is_expired\<close>, the
  second the one of \<^verbatim>\<open>access\<close>. The result \<open>None\<close> is Python's \<^verbatim>\<open>None\<close>.
\<close>

definition mc_get ::
  "'v MemoryCache \<Rightarrow> string \<Rightarrow> real \<Rightarrow> real \<Rightarrow> 'v option \<times> 'v MemoryCache" where
  "mc_get c key t_check t_access =
     (case map_of (cache c) key of
        None \<Rightarrow> (None, c\<lparr>misses := misses c + 1\<rparr>)
      | Some entry \<Rightarrow>
          if is_expired entry t_check
          then (None, c\<lparr>cache := AList.delete key (cache c), misses := misses c + 1\<rparr>)
          else (case access entry t_access of
                  (v, entry') \<Rightarrow>
                    (Some v, c\<lparr>cache := AList.update key entry' (cache c),
                                hits := hits c + 1\<rparr>)))"

text \<open>
  Python's \<^verbatim>\<open>min(xs, key=f)\<close> on a non-empty sequence: the first element whose key is
  minimal (the running best is replaced only by a strictly smaller one).
\<close>

fun py_min :: "('a \<Rightarrow> real) \<Rightarrow> 'a \<Rightarrow> 'a list \<Rightarrow> 'a" where
  "py_min f best [] = best"
| "py_min f best (x # xs) = py_min f (if f x < f best then x else best) xs"

text \<open>
  \<^verbatim>\<open>MemoryCache._evict_lru\<close>. The key function of the source looks each key up in the
  dictionary; here it reads the entry stored beside the key.
\<close>

definition evict_lru :: "'v MemoryCache \<Rightarrow> 'v MemoryCache" where
  "evict_lru c =
     (case cache c of
        [] \<Rightarrow> c
      | kv # rest \<Rightarrow>
          (let lru_key = fst (py_min (\<lambda>p. e_last_accessed (snd p)) kv rest)
           in c\<lparr>cache := AList.delete lru_key (cache c), evictions := evictions c + 1\<rparr>))"

text \<open>Python's \<^verbatim>\<open>ttl_seconds or self.default_ttl\<close>: \<^verbatim>\<open>None\<close> and \<open>0\<close> are falsy.\<close>

definition ttl_or_default :: "int option \<Rightarrow> int \<Rightarrow> int" where
  "ttl_or_default ttl_seconds dflt =
     (case ttl_seconds of None \<Rightarrow> dflt | Some t \<Rightarrow> if t = 0 then dflt else t)"

text \<open>\<^verbatim>\<open>MemoryCache.set\<close>.\<close>

definition mc_set ::
  "'v MemoryCache \<Rightarrow> string \<Rightarrow> 'v \<Rightarrow> int option \<Rightarrow> real \<Rightarrow> 'v MemoryCache" where
  "mc_set c key v ttl_seconds now =
     (let ttl = ttl_or_default ttl_seconds (default_ttl c);
          c1 = (if int (length (cache c)) \<ge> max_size c \<and> key \<notin> fst ` set (cache c)
                then evict_lru c else c)
      in c1\<lparr>cache := AList.update key (new_entry v ttl now) (cache c1)\<rparr>)"

text \<open>\<^verbatim>\<open>MemoryCache.delete\<close> and \<^verbatim>\<open>MemoryCache.clear\<close>.\<close>

definition mc_delete :: "'v MemoryCache \<Rightarrow> string \<Rightarrow> bool \<times> 'v MemoryCache" where
  "mc_delete c key =
     (if key \<in> fst ` set (cache c)
      then (True, c\<lparr>cache := AList.delete key (cache c)\<rparr>)
      else (False, c))"

definition mc_clear :: "'v MemoryCache \<Rightarrow> 'v MemoryCache" where
  "mc_clear c = c\<lparr>cache := []\<rparr>"

text \<open>
  \<^verbatim>\<open>MemoryCache.cleanup_expired\<close>. Each call of \<^verbatim>\<open>is_expired\<close> reads the clock:
  \<open>clock i\<close> is the reading taken for the entry at position \<open>i\<close>.
\<close>

definition cleanup_expired :: "'v MemoryCache \<Rightarrow> (nat \<Rightarrow> real) \<Rightarrow> int \<times> 'v MemoryCache" where
  "cleanup_expired c clock =
     (let expired_keys =
            map (\<lambda>(i, key, entry). key)
              (filter (\<lambda>(i, key, entry). is_expired entry (clock i))
                 (enumerate 0 (cache c)))
      in (int (length expired_keys),
          c\<lparr>cache := foldl (\<lambda>al key. AList.delete key al) (cache c) expired_keys\<rparr>))"

text \<open>
  The calls that write to a cache, and the cache that a sequence of them leaves when it
  starts from \<^verbatim>\<open>MemoryCache(max_size, default_ttl)\<close>.
\<close>

datatype 'v cache_op =
    Op_set string 'v "int option" real
  | Op_get string real real
  | Op_delete string
  | Op_clear
  | Op_cleanup_expired "nat \<Rightarrow> real"

fun apply_op :: "'v MemoryCache \<Rightarrow> 'v cache_op \<Rightarrow> 'v MemoryCache" where
  "apply_op c (Op_set key v ttl_seconds now) = mc_set c key v ttl_seconds now"
| "apply_op c (Op_get key t_check t_access) = snd (mc_get c key t_check t_access)"
| "apply_op c (Op_delete key) = snd (mc_delete c key)"
| "apply_op c Op_clear = mc_clear c"
| "apply_op c (Op_cleanup_expired clock) = snd (cleanup_expired c clock)"

definition cache_run :: "int \<Rightarrow> int \<Rightarrow> 'v cache_op list \<Rightarrow> 'v MemoryCache" where
  "cache_run ms dt ops = foldl apply_op (new_cache ms dt) ops"


text \<open>
  \<^verbatim>\<open>cache_key\<close>. \<^verbatim>\<open>json.dumps\<close> and \<^verbatim>\<open>hashlib.md5(...).hexdigest()\<close> are library
  functions and are parameters of the model; \<^verbatim>\<open>json.dumps\<close> can raise. The keyword
  arguments are a dictionary with string keys, so the names in \<open>kwargs\<close> are distinct and
  \<^verbatim>\<open>sorted(kwargs.items())\<close>, which compares pairs, is decided by the names alone.
\<close>

datatype py_error = KeyError string | NameError string | TypeError string | ValueError string

record ('a, 'b) key_data =
  kd_args :: "'a list"
  kd_kwargs :: "(string \<times> 'b) list"

definition cache_key ::
  "(('a, 'b) key_data \<Rightarrow> py_error + string) \<Rightarrow> (string \<Rightarrow> string) \<Rightarrow>
     string \<Rightarrow> 'a list \<Rightarrow> (string \<times> 'b) list \<Rightarrow> py_error + string" where
  "cache_key json_dumps md5_hexdigest prefix args kwargs =
     (let key_data = \<lparr>kd_args = args, kd_kwargs = sort_key fst kwargs\<rparr>
      in case json_dumps key_data of
           Inl err \<Rightarrow> Inl err
         | Inr dumped \<Rightarrow> Inr (prefix @ '':'' @ md5_hexdigest dumped))"

section \<open>The task manager of tasks.py\<close>

text \<open>
  A \<^verbatim>\<open>datetime\<close> is a number of microseconds, and \<^verbatim>\<open>datetime.utcnow()\<close> is an
  argument of each operation. The identifier \<^verbatim>\<open>str(uuid.uuid4())\<close> is an argument of
  \<open>create_task\<close>. A result of \<open>None\<close> is Python's \<^verbatim>\<open>None\<close>.
\<close>

datatype TaskStatus = PENDING | RUNNING | COMPLETED | FAILED

record 'r Task =
  t_id :: string
  t_name :: string
  t_status :: TaskStatus
  t_created_at :: int
  t_started_at :: "int option"
  t_completed_at :: "int option"
  t_result :: "'r option"
  t_error :: "string option"
  t_progress :: real

text \<open>The handle \<^verbatim>\<open>asyncio.Task\<close>: what the manager does to it is to call \<^verbatim>\<open>cancel()\<close>.\<close>

record async_task =
  cancel_requested :: bool

record 'r TaskManager =
  tasks :: "string \<rightharpoonup> 'r Task"
  running_tasks :: "string \<rightharpoonup> async_task"

definition new_manager :: "'r TaskManager" where
  "new_manager = \<lparr>tasks = Map.empty, running_tasks = Map.empty\<rparr>"



text \<open>\<^verbatim>\<open>TaskManager.create_task\<close>, called inside the running event loop.\<close>

definition create_task ::
  "'r TaskManager \<Rightarrow> string \<Rightarrow> string \<Rightarrow> int \<Rightarrow> string \<times> 'r TaskManager" where
  "create_task tm name task_id now =
     (let task = \<lparr>t_id = task_id, t_name = name, t_status = PENDING, t_created_at = now,
                  t_started_at = None, t_completed_at = None, t_result = None,
                  t_error = None, t_progress = 0\<rparr>
      in (task_id,
          tm\<lparr>tasks := (tasks tm)(task_id \<mapsto> task),
             running_tasks := (running_tasks tm)(task_id \<mapsto> \<lparr>cancel_requested = False\<rparr>)\<rparr>))"



text \<open>\<^verbatim>\<open>TaskManager.get_task\<close> and \<^verbatim>\<open>TaskManager.get_all_tasks\<close>.\<close>

definition get_task :: "'r TaskManager \<Rightarrow> string \<Rightarrow> 'r Task option" where
  "get_task tm task_id = tasks tm task_id"

definition get_all_tasks :: "'r TaskManager \<Rightarrow> (string \<rightharpoonup> 'r Task)" where
  "get_all_tasks tm = tasks tm"

text \<open>\<^verbatim>\<open>TaskManager.cancel_task\<close>.\<close>

definition cancel_task ::
  "'r TaskManager \<Rightarrow> string \<Rightarrow> int \<Rightarrow> py_error + (bool \<times> 'r TaskManager)" where
  "cancel_task tm task_id now =
     (case running_tasks tm task_id of
        None \<Rightarrow> Inr (False, tm)
      | Some handle \<Rightarrow>
          (case tasks tm task_id of
             None \<Rightarrow> Inl (KeyError task_id)
           | Some task \<Rightarrow>
               if t_status task = RUNNING
               then Inr (True,
                 tm\<lparr>tasks := (tasks tm)(task_id \<mapsto>
                      task\<lparr>t_status := FAILED, t_error := Some ''Task cancelled'',
                           t_completed_at := Some now\<rparr>),
                    running_tasks := (running_tasks tm)(task_id \<mapsto>
                      handle\<lparr>cancel_requested := True\<rparr>)\<rparr>)
               else Inr (False, tm)))"

text \<open>
  The names bound at module level in tasks.py, in the order of the file: its imports
  (\<^verbatim>\<open>from datetime import datetime\<close> is the only import from that module), its logger,
  its classes, its global manager and its three example tasks.
\<close>

definition tasks_module_names :: "string list" where
  "tasks_module_names =
     [''asyncio'', ''Dict'', ''Any'', ''Optional'', ''Callable'', ''datetime'', ''uuid'',
      ''logging'', ''dataclass'', ''Enum'', ''logger'', ''TaskStatus'', ''Task'',
      ''TaskManager'', ''task_manager'', ''generate_rfp_report_task'',
      ''send_notification_task'', ''process_rfp_scan_task'']"

text \<open>The test of the loop of \<^verbatim>\<open>cleanup_old_tasks\<close>, and its two loops.\<close>

definition removable :: "'r Task \<Rightarrow> int \<Rightarrow> bool" where
  "removable task cutoff_time \<longleftrightarrow>
     (t_status task = COMPLETED \<or> t_status task = FAILED) \<and>
     (case t_completed_at task of None \<Rightarrow> False | Some done_at \<Rightarrow> done_at < cutoff_time)"

definition sweep :: "'r TaskManager \<Rightarrow> int \<Rightarrow> 'r TaskManager" where
  "sweep tm cutoff_time =
     (let gone = (\<lambda>task_id. case tasks tm task_id of
                              None \<Rightarrow> False
                            | Some task \<Rightarrow> removable task cutoff_time)
      in tm\<lparr>tasks := (\<lambda>task_id. if gone task_id then None else tasks tm task_id),
            running_tasks :=
              (\<lambda>task_id. if gone task_id then None else running_tasks tm task_id)\<rparr>)"

text \<open>
  \<^verbatim>\<open>TaskManager.cleanup_old_tasks\<close>. Its first statement evaluates the global name
  \<^verbatim>\<open>timedelta\<close>; a name that the module does not bind raises \<^verbatim>\<open>NameError\<close>.
  \<^verbatim>\<open>timedelta(hours=h)\<close> is \<open>h\<close> times 3600000000 microseconds.
\<close>

definition cleanup_old_tasks ::
  "'r TaskManager \<Rightarrow> int \<Rightarrow> int \<Rightarrow> py_error + 'r TaskManager" where
  "cleanup_old_tasks tm max_age_hours now =
     (if ''timedelta'' \<notin> set tasks_module_names then Inl (NameError ''timedelta'')
      else (let cutoff_time = now - max_age_hours * 3600000000
            in Inr (sweep tm cutoff_time)))"

subsection \<open>The manager inside the event loop\<close>

text \<open>
  The event loop holds one wrapper coroutine for each created task: scheduled and not
  yet started, started and suspended inside the submitted function, or finished. A
  function that is not a coroutine function runs without suspension, which is \<open>Begin\<close>
  followed at once by \<open>End\<close>. An event that cannot happen in a state (the event loop
  never starts a coroutine twice, and \<^verbatim>\<open>uuid4\<close> gives an identifier never used before)
  has no successor state. A call that raises leaves the manager as it was.
\<close>

datatype phase = Scheduled | Started | Finished

record 'r world =
  mgr :: "'r TaskManager"
  loop :: "string \<rightharpoonup> phase"


definition init_world :: "'r world" where
  "init_world = \<lparr>mgr = new_manager, loop = Map.empty\<rparr>"






subsection \<open>Concrete states\<close>

text \<open>
  A cache of capacity 2 after \<open>set(a)\<close> at time 0, \<open>set(b)\<close> at time 1, \<open>set(a)\<close> again
  at time 2 and \<open>get(b)\<close> at time 2: both entries were last accessed at time 2, and \<open>b\<close>
  is the older one.
\<close>

definition tie_cache :: "nat MemoryCache" where
  "tie_cache =
     snd (mc_get (mc_set (mc_set (mc_set (new_cache 2 3600) ''a'' 1 None 0) ''b'' 2 None 1)
                    ''a'' 1 None 2) ''b'' 2 2)"

text \<open>
  The manager after \<open>create_task\<close> of a task \<open>id1\<close> at time 0; the same task after its
  coroutine has started at time 1; after \<open>cancel_task\<close> at time 2 on the started task;
  after a function that returned \<^verbatim>\<open>None\<close> at time 2;
  after a cancellation at time 2 that the function suppressed, returning \<open>r\<close> at time
  3; and after a function that raised \<^verbatim>\<open>Exception()\<close>, whose \<^verbatim>\<open>str()\<close> is empty.
\<close>

definition pending_manager :: "string TaskManager" where
  "pending_manager =
     \<lparr>tasks = [''id1'' \<mapsto>
        \<lparr>t_id = ''id1'', t_name = ''n'', t_status = PENDING, t_created_at = 0,
         t_started_at = None, t_completed_at = None, t_result = None,
         t_error = None, t_progress = 0\<rparr>],
      running_tasks = [''id1'' \<mapsto> \<lparr>cancel_requested = False\<rparr>]\<rparr>"

definition started_world :: "string world" where
  "started_world =
     \<lparr>mgr = \<lparr>tasks = [''id1'' \<mapsto>
               \<lparr>t_id = ''id1'', t_name = ''n'', t_status = RUNNING, t_created_at = 0,
                t_started_at = Some 1, t_completed_at = None, t_result = None,
                t_error = None, t_progress = 0\<rparr>],
             running_tasks = [''id1'' \<mapsto> \<lparr>cancel_requested = False\<rparr>]\<rparr>,
      loop = [''id1'' \<mapsto> Started]\<rparr>"

definition cancelled_manager :: "string TaskManager" where
  "cancelled_manager =
     \<lparr>tasks = [''id1'' \<mapsto>
        \<lparr>t_id = ''id1'', t_name = ''n'', t_status = FAILED, t_created_at = 0,
         t_started_at = Some 1, t_completed_at = Some 2, t_result = None,
         t_error = Some ''Task cancelled'', t_progress = 0\<rparr>],
      running_tasks = [''id1'' \<mapsto> \<lparr>cancel_requested = True\<rparr>]\<rparr>"




section \<open>Properties of the cache\<close>

subsection \<open>Auxiliary facts\<close>

lemma py_min_char:
  "(py_min f b xs = b \<and> (\<forall>x\<in>set xs. f b \<le> f x)) \<or>
   (\<exists>ys m zs. xs = ys @ m # zs \<and> py_min f b xs = m \<and> f m < f b \<and>
      (\<forall>y\<in>set ys. f m < f y) \<and> (\<forall>z\<in>set zs. f m \<le> f z))"
proof (induction xs arbitrary: b)
  case Nil
  show ?case by simp
next
  case (Cons x xs)
  show ?case
  proof (cases "f x < f b")
    case True
    from Cons.IH [of x] show ?thesis
    proof
      assume "py_min f x xs = x \<and> (\<forall>y\<in>set xs. f x \<le> f y)"
      with True have "x # xs = [] @ x # xs \<and> py_min f b (x # xs) = x \<and> f x < f b \<and>
        (\<forall>y\<in>set []. f x < f y) \<and> (\<forall>z\<in>set xs. f x \<le> f z)" by simp
      then show ?thesis by blast
    next
      assume "\<exists>ys m zs. xs = ys @ m # zs \<and> py_min f x xs = m \<and> f m < f x \<and>
        (\<forall>y\<in>set ys. f m < f y) \<and> (\<forall>z\<in>set zs. f m \<le> f z)"
      then obtain ys m zs where h: "xs = ys @ m # zs" "py_min f x xs = m" "f m < f x"
        "\<forall>y\<in>set ys. f m < f y" "\<forall>z\<in>set zs. f m \<le> f z" by blast
      with True have "x # xs = (x # ys) @ m # zs \<and> py_min f b (x # xs) = m \<and> f m < f b \<and>
        (\<forall>y\<in>set (x # ys). f m < f y) \<and> (\<forall>z\<in>set zs. f m \<le> f z)" by simp
      then show ?thesis by blast
    qed
  next
    case False
    from Cons.IH [of b] show ?thesis
    proof
      assume "py_min f b xs = b \<and> (\<forall>y\<in>set xs. f b \<le> f y)"
      with False show ?thesis by simp
    next
      assume "\<exists>ys m zs. xs = ys @ m # zs \<and> py_min f b xs = m \<and> f m < f b \<and>
        (\<forall>y\<in>set ys. f m < f y) \<and> (\<forall>z\<in>set zs. f m \<le> f z)"
      then obtain ys m zs where h: "xs = ys @ m # zs" "py_min f b xs = m" "f m < f b"
        "\<forall>y\<in>set ys. f m < f y" "\<forall>z\<in>set zs. f m \<le> f z" by blast
      with False have "x # xs = (x # ys) @ m # zs \<and> py_min f b (x # xs) = m \<and> f m < f b \<and>
        (\<forall>y\<in>set (x # ys). f m < f y) \<and> (\<forall>z\<in>set zs. f m \<le> f z)" by simp
      then show ?thesis by blast
    qed
  qed
qed

text \<open>The result of \<open>py_min\<close> splits the list at the first minimal element.\<close>

lemma py_min_split:
  "\<exists>ys m zs. b # xs = ys @ m # zs \<and> py_min f b xs = m \<and>
      (\<forall>y\<in>set ys. f m < f y) \<and> (\<forall>z\<in>set zs. f m \<le> f z)"
proof -
  from py_min_char [of f b xs] show ?thesis
  proof
    assume "py_min f b xs = b \<and> (\<forall>x\<in>set xs. f b \<le> f x)"
    then have "b # xs = [] @ b # xs \<and> py_min f b xs = b \<and>
      (\<forall>y\<in>set []. f b < f y) \<and> (\<forall>z\<in>set xs. f b \<le> f z)" by simp
    then show ?thesis by blast
  next
    assume "\<exists>ys m zs. xs = ys @ m # zs \<and> py_min f b xs = m \<and> f m < f b \<and>
      (\<forall>y\<in>set ys. f m < f y) \<and> (\<forall>z\<in>set zs. f m \<le> f z)"
    then obtain ys m zs where h: "xs = ys @ m # zs" "py_min f b xs = m" "f m < f b"
      "\<forall>y\<in>set ys. f m < f y" "\<forall>z\<in>set zs. f m \<le> f z" by blast
    then have "b # xs = (b # ys) @ m # zs \<and> py_min f b xs = m \<and>
      (\<forall>y\<in>set (b # ys). f m < f y) \<and> (\<forall>z\<in>set zs. f m \<le> f z)" by simp
    then show ?thesis by blast
  qed
qed

lemma delete_distinct_split:
  "distinct (map fst (ys @ (k, e) # zs)) \<Longrightarrow> AList.delete k (ys @ (k, e) # zs) = ys @ zs"
  by (induction ys) (auto simp: delete_id image_iff)

lemma update_new: "k \<notin> fst ` set al \<Longrightarrow> AList.update k v al = al @ [(k, v)]"
  by (induction al) auto

lemma length_update:
  "length (AList.update k v al) = (if k \<in> fst ` set al then length al else Suc (length al))"
  by (induction al) auto

lemma evict_lru_split:
  assumes "cache c \<noteq> []" and "distinct (map fst (cache c))"
  shows "\<exists>ys k e zs. cache c = ys @ (k, e) # zs \<and>
           (\<forall>y\<in>set ys. e_last_accessed e < e_last_accessed (snd y)) \<and>
           (\<forall>z\<in>set zs. e_last_accessed e \<le> e_last_accessed (snd z)) \<and>
           evict_lru c = c\<lparr>cache := ys @ zs, evictions := evictions c + 1\<rparr>"
proof -
  from assms(1) obtain kv rest where c: "cache c = kv # rest" by (cases "cache c") auto
  obtain ys m zs where s: "kv # rest = ys @ m # zs"
    "py_min (\<lambda>p. e_last_accessed (snd p)) kv rest = m"
    "\<forall>y\<in>set ys. e_last_accessed (snd m) < e_last_accessed (snd y)"
    "\<forall>z\<in>set zs. e_last_accessed (snd m) \<le> e_last_accessed (snd z)"
    using py_min_split [of kv rest "\<lambda>p. e_last_accessed (snd p)"] by blast
  obtain k e where m: "m = (k, e)" by (cases m)
  from assms(2) c s(1) m have d: "AList.delete k (cache c) = ys @ zs"
    using delete_distinct_split [of ys k e zs] by simp
  from c s(2) m have "evict_lru c =
      c\<lparr>cache := AList.delete k (cache c), evictions := evictions c + 1\<rparr>"
    by (simp add: evict_lru_def)
  with d have "evict_lru c = c\<lparr>cache := ys @ zs, evictions := evictions c + 1\<rparr>"
    by simp
  moreover from c s(1) m have "cache c = ys @ (k, e) # zs" by simp
  ultimately show ?thesis using s(3,4) m by auto
qed

lemma length_evict_lru:
  assumes "cache c \<noteq> []" and "distinct (map fst (cache c))"
  shows "Suc (length (cache (evict_lru c))) = length (cache c) \<and>
         distinct (map fst (cache (evict_lru c))) \<and>
         max_size (evict_lru c) = max_size c \<and>
         set (cache (evict_lru c)) \<subseteq> set (cache c)"
proof -
  obtain ys k e zs where s: "cache c = ys @ (k, e) # zs"
    "evict_lru c = c\<lparr>cache := ys @ zs, evictions := evictions c + 1\<rparr>"
    using evict_lru_split [OF assms] by blast
  with assms(2) show ?thesis by auto
qed

lemma map_of_set_key:
  "map_of (cache (mc_set c key v ttl now)) key =
     Some (new_entry v (ttl_or_default ttl (default_ttl c)) now)"
  by (simp add: mc_set_def Let_def update_conv')

text \<open>
  Every call keeps the keys distinct and, for a capacity of at least 1, the number of
  entries within the capacity.
\<close>

lemma mc_set_bound:
  assumes "distinct (map fst (cache c))" and "int (length (cache c)) \<le> max_size c"
    and "1 \<le> max_size c"
  shows "int (length (cache (mc_set c key v ttl now))) \<le> max_size c \<and>
         distinct (map fst (cache (mc_set c key v ttl now))) \<and>
         max_size (mc_set c key v ttl now) = max_size c"
proof (cases "int (length (cache c)) \<ge> max_size c \<and> key \<notin> fst ` set (cache c)")
  case True
  with assms have ne: "cache c \<noteq> []" by auto
  from length_evict_lru [OF ne assms(1)] True
  have "Suc (length (cache (evict_lru c))) = length (cache c)"
    "max_size (evict_lru c) = max_size c" "key \<notin> fst ` set (cache (evict_lru c))"
    "distinct (map fst (cache (evict_lru c)))"
    by auto
  with True assms show ?thesis
    by (simp add: mc_set_def Let_def length_update distinct_update)
next
  case False
  with assms show ?thesis
    by (auto simp add: mc_set_def Let_def length_update distinct_update)
qed

lemma mc_get_bound:
  assumes "distinct (map fst (cache c))" and "int (length (cache c)) \<le> max_size c"
  shows "int (length (cache (snd (mc_get c key t1 t2)))) \<le> max_size c \<and>
         distinct (map fst (cache (snd (mc_get c key t1 t2)))) \<and>
         max_size (snd (mc_get c key t1 t2)) = max_size c"
proof (cases "map_of (cache c) key")
  case None
  with assms show ?thesis by (simp add: mc_get_def)
next
  case (Some e)
  then have "key \<in> fst ` set (cache c)"
    by (auto dest: map_of_SomeD intro: rev_image_eqI)
  with Some assms length_delete_le [of key "cache c"] show ?thesis
    by (auto simp add: mc_get_def access_def length_update distinct_update distinct_delete)
qed

lemma foldl_delete_bound:
  "length (foldl (\<lambda>al key. AList.delete key al) al ks) \<le> length al \<and>
   (distinct (map fst al) \<longrightarrow>
      distinct (map fst (foldl (\<lambda>al key. AList.delete key al) al ks)))"
proof (induction ks arbitrary: al)
  case Nil
  show ?case by simp
next
  case (Cons k ks)
  from Cons.IH [of "AList.delete k al"] length_delete_le [of k al] show ?case
    by (auto simp add: distinct_delete)
qed

lemma cleanup_expired_bound:
  assumes "distinct (map fst (cache c))" and "int (length (cache c)) \<le> max_size c"
  shows "int (length (cache (snd (cleanup_expired c clock)))) \<le> max_size c \<and>
         distinct (map fst (cache (snd (cleanup_expired c clock)))) \<and>
         max_size (snd (cleanup_expired c clock)) = max_size c"
  using assms
    foldl_delete_bound [of "cache c" "map (\<lambda>(i, key, entry). key)
      (filter (\<lambda>(i, key, entry). is_expired entry (clock i)) (enumerate 0 (cache c)))"]
  by (simp add: cleanup_expired_def Let_def)

lemma apply_op_bound:
  assumes "distinct (map fst (cache c))" and "int (length (cache c)) \<le> max_size c"
    and "1 \<le> max_size c"
  shows "int (length (cache (apply_op c op))) \<le> max_size c \<and>
         distinct (map fst (cache (apply_op c op))) \<and>
         max_size (apply_op c op) = max_size c"
proof (cases op)
  case (Op_set key v ttl now)
  with mc_set_bound [OF assms] show ?thesis by simp
next
  case (Op_get key t1 t2)
  with mc_get_bound [OF assms(1,2)] show ?thesis by simp
next
  case (Op_delete key)
  with assms length_delete_le [of key "cache c"] show ?thesis
    by (auto simp add: mc_delete_def distinct_delete)
next
  case Op_clear
  with assms show ?thesis by (simp add: mc_clear_def)
next
  case (Op_cleanup_expired clock)
  with cleanup_expired_bound [OF assms(1,2)] show ?thesis by simp
qed

lemma cache_run_bound:
  assumes "1 \<le> ms"
  shows "int (length (cache (cache_run ms dt ops))) \<le> ms \<and>
         distinct (map fst (cache (cache_run ms dt ops))) \<and>
         max_size (cache_run ms dt ops) = ms"
proof (induction ops rule: rev_induct)
  case Nil
  from assms show ?case by (simp add: cache_run_def new_cache_def)
next
  case (snoc op ops)
  then have h: "distinct (map fst (cache (cache_run ms dt ops)))"
    "int (length (cache (cache_run ms dt ops))) \<le> max_size (cache_run ms dt ops)"
    "1 \<le> max_size (cache_run ms dt ops)"
    using assms by simp_all
  have "cache_run ms dt (ops @ [op]) = apply_op (cache_run ms dt ops) op"
    by (simp add: cache_run_def)
  with apply_op_bound [OF h, of op] snoc show ?case by simp
qed

subsection \<open>Reading\<close>

text \<open>
  Claim C4. \<open>get\<close> on a key that is absent counts a miss, returns nothing and leaves the
  entries as they are. On a key whose entry is stale at the clock reading of the check
  (\<open>now - created_at > ttl\<close>) it removes that entry and no other, counts a miss and
  returns nothing. On any other key it counts a hit, adds one to the entry's access count,
  sets its last access to the clock reading of the access, leaves every other entry and
  the order of the keys as they are, and returns the stored value. So a stored entry is
  returned exactly when \<open>now - created_at \<le> ttl\<close>.
\<close>

theorem get_behaviour:
  "(map_of (cache c) key = None \<longrightarrow>
      fst (mc_get c key t1 t2) = None \<and>
      misses (snd (mc_get c key t1 t2)) = misses c + 1 \<and>
      hits (snd (mc_get c key t1 t2)) = hits c \<and>
      cache (snd (mc_get c key t1 t2)) = cache c) \<and>
   (\<forall>e. map_of (cache c) key = Some e \<and> t1 - e_created_at e > real_of_int (e_ttl_seconds e) \<longrightarrow>
      fst (mc_get c key t1 t2) = None \<and>
      map_of (cache (snd (mc_get c key t1 t2))) = (map_of (cache c))(key := None) \<and>
      misses (snd (mc_get c key t1 t2)) = misses c + 1 \<and>
      hits (snd (mc_get c key t1 t2)) = hits c) \<and>
   (\<forall>e. map_of (cache c) key = Some e \<and> t1 - e_created_at e \<le> real_of_int (e_ttl_seconds e) \<longrightarrow>
      fst (mc_get c key t1 t2) = Some (e_value e) \<and>
      map_of (cache (snd (mc_get c key t1 t2))) =
        (map_of (cache c))(key \<mapsto> e\<lparr>e_access_count := e_access_count e + 1, e_last_accessed := t2\<rparr>) \<and>
      map fst (cache (snd (mc_get c key t1 t2))) = map fst (cache c) \<and>
      hits (snd (mc_get c key t1 t2)) = hits c + 1 \<and>
      misses (snd (mc_get c key t1 t2)) = misses c)"
  by (auto simp add: mc_get_def is_expired_def access_def delete_conv' update_conv' update_keys
      dest: map_of_SomeD intro: rev_image_eqI)

text \<open>
  The three cases on a cache holding one entry made at time 0 with a lifetime of 10: a
  key that is absent, the entry read at time 20, and the entry read at time 5.
\<close>

theorem get_behaviour_witness:
  "fst (mc_get (mc_set (new_cache 2 10) ''k'' (7::nat) None 0) ''z'' 5 6) = None \<and>
   misses (snd (mc_get (mc_set (new_cache 2 10) ''k'' (7::nat) None 0) ''z'' 5 6)) = 1 \<and>
   fst (mc_get (mc_set (new_cache 2 10) ''k'' (7::nat) None 0) ''k'' 20 21) = None \<and>
   map_of (cache (snd (mc_get (mc_set (new_cache 2 10) ''k'' (7::nat) None 0) ''k'' 20 21))) ''k'' = None \<and>
   fst (mc_get (mc_set (new_cache 2 10) ''k'' (7::nat) None 0) ''k'' 5 6) = Some 7 \<and>
   hits (snd (mc_get (mc_set (new_cache 2 10) ''k'' (7::nat) None 0) ''k'' 5 6)) = 1"
  using get_behaviour [of "mc_set (new_cache 2 10) ''k'' (7::nat) None 0" "''z''" 5 6]
    get_behaviour [of "mc_set (new_cache 2 10) ''k'' (7::nat) None 0" "''k''" 20 21]
    get_behaviour [of "mc_set (new_cache 2 10) ''k'' (7::nat) None 0" "''k''" 5 6]
  by (simp add: mc_set_def new_cache_def new_entry_def ttl_or_default_def)

subsection \<open>Clearing\<close>

text \<open>
  Claim C9. \<open>clear\<close> removes every entry, so that the size is 0, and leaves the counters
  of hits, misses and evictions and the two configuration fields as they are.
\<close>

theorem clear_frame:
  "cache (mc_clear c) = [] \<and> int (length (cache (mc_clear c))) = 0 \<and>
   hits (mc_clear c) = hits c \<and> misses (mc_clear c) = misses c \<and>
   evictions (mc_clear c) = evictions c \<and> max_size (mc_clear c) = max_size c \<and>
   default_ttl (mc_clear c) = default_ttl c"
  by (simp add: mc_clear_def)

subsection \<open>Writing\<close>

text \<open>
  Claim C3, as amended. When \<open>set\<close> inserts a new key into a non-empty cache that holds at
  least \<open>max_size\<close> entries, exactly one entry is evicted: the first one, in the insertion
  order of the dictionary, among those whose last access is the smallest (every entry before
  it was accessed strictly later, every entry after it at the same time or later). The
  new entry is appended and the counter of evictions grows by one. With capacity 2, after
  \<open>set(a)\<close>, \<open>set(b)\<close>, a \<open>get(a)\<close> that finds \<open>a\<close> fresh and reads the clock later than
  \<open>set(b)\<close> did, and \<open>set(c)\<close>, the keys left are \<open>a\<close> and \<open>c\<close> and one eviction is
  counted.
\<close>

theorem set_evicts_first_least_recent:
  "(distinct (map fst (cache c)) \<and> cache c \<noteq> [] \<and> int (length (cache c)) \<ge> max_size c \<and>
    key \<notin> fst ` set (cache c) \<longrightarrow>
    (\<exists>ys k e zs. cache c = ys @ (k, e) # zs \<and>
       (\<forall>y\<in>set ys. e_last_accessed e < e_last_accessed (snd y)) \<and>
       (\<forall>z\<in>set zs. e_last_accessed e \<le> e_last_accessed (snd z)) \<and>
       cache (mc_set c key v ttl now) =
         ys @ zs @ [(key, new_entry v (ttl_or_default ttl (default_ttl c)) now)] \<and>
       evictions (mc_set c key v ttl now) = evictions c + 1)) \<and>
   (a \<noteq> b \<and> k3 \<noteq> a \<and> k3 \<noteq> b \<and> t1 < t2' \<and>
    t2 - t0 \<le> real_of_int (ttl_or_default ttl1 dt) \<longrightarrow>
    fst (mc_get (mc_set (mc_set (new_cache 2 dt) a v1 ttl1 t0) b v2 ttl2 t1) a t2 t2') = Some v1 \<and>
    map fst (cache (mc_set
       (snd (mc_get (mc_set (mc_set (new_cache 2 dt) a v1 ttl1 t0) b v2 ttl2 t1) a t2 t2'))
       k3 v3 ttl3 t3)) = [a, k3] \<and>
    evictions (mc_set
       (snd (mc_get (mc_set (mc_set (new_cache 2 dt) a v1 ttl1 t0) b v2 ttl2 t1) a t2 t2'))
       k3 v3 ttl3 t3) = 1)"
proof (intro conjI impI)
  assume h: "distinct (map fst (cache c)) \<and> cache c \<noteq> [] \<and>
    int (length (cache c)) \<ge> max_size c \<and> key \<notin> fst ` set (cache c)"
  then obtain ys k e zs where s: "cache c = ys @ (k, e) # zs"
    "\<forall>y\<in>set ys. e_last_accessed e < e_last_accessed (snd y)"
    "\<forall>z\<in>set zs. e_last_accessed e \<le> e_last_accessed (snd z)"
    "evict_lru c = c\<lparr>cache := ys @ zs, evictions := evictions c + 1\<rparr>"
    using evict_lru_split [of c] by blast
  from h s(1) have "key \<notin> fst ` set (ys @ zs)" by auto
  then have "AList.update key x (ys @ zs) = ys @ zs @ [(key, x)]" for x :: "'a CacheEntry"
    using update_new [of key "ys @ zs" x] by simp
  with h s(4) have "cache (mc_set c key v ttl now) =
      ys @ zs @ [(key, new_entry v (ttl_or_default ttl (default_ttl c)) now)] \<and>
    evictions (mc_set c key v ttl now) = evictions c + 1"
    by (simp add: mc_set_def Let_def)
  with s show "\<exists>ys k e zs. cache c = ys @ (k, e) # zs \<and>
       (\<forall>y\<in>set ys. e_last_accessed e < e_last_accessed (snd y)) \<and>
       (\<forall>z\<in>set zs. e_last_accessed e \<le> e_last_accessed (snd z)) \<and>
       cache (mc_set c key v ttl now) =
         ys @ zs @ [(key, new_entry v (ttl_or_default ttl (default_ttl c)) now)] \<and>
       evictions (mc_set c key v ttl now) = evictions c + 1" by blast
next
  assume h: "a \<noteq> b \<and> k3 \<noteq> a \<and> k3 \<noteq> b \<and> t1 < t2' \<and>
    t2 - t0 \<le> real_of_int (ttl_or_default ttl1 dt)"
  have c2: "mc_set (mc_set (new_cache 2 dt) a v1 ttl1 t0) b v2 ttl2 t1 =
    (new_cache 2 dt)\<lparr>cache := [(a, new_entry v1 (ttl_or_default ttl1 dt) t0),
                                (b, new_entry v2 (ttl_or_default ttl2 dt) t1)]\<rparr>"
    using h by (simp add: mc_set_def new_cache_def Let_def)
  show "fst (mc_get (mc_set (mc_set (new_cache 2 dt) a v1 ttl1 t0) b v2 ttl2 t1) a t2 t2') = Some v1"
    unfolding c2 using h
    by (simp add: mc_get_def is_expired_def access_def new_entry_def new_cache_def)
  have c3: "snd (mc_get (mc_set (mc_set (new_cache 2 dt) a v1 ttl1 t0) b v2 ttl2 t1) a t2 t2') =
    (new_cache 2 dt)\<lparr>cache := [(a, (new_entry v1 (ttl_or_default ttl1 dt) t0)
                                   \<lparr>e_access_count := 1, e_last_accessed := t2'\<rparr>),
                                (b, new_entry v2 (ttl_or_default ttl2 dt) t1)], hits := 1\<rparr>"
    unfolding c2 using h
    by (simp add: mc_get_def is_expired_def access_def new_entry_def new_cache_def)
  show "map fst (cache (mc_set
       (snd (mc_get (mc_set (mc_set (new_cache 2 dt) a v1 ttl1 t0) b v2 ttl2 t1) a t2 t2'))
       k3 v3 ttl3 t3)) = [a, k3]"
    unfolding c3 using h
    by (auto simp add: mc_set_def evict_lru_def new_entry_def new_cache_def Let_def)
  show "evictions (mc_set
       (snd (mc_get (mc_set (mc_set (new_cache 2 dt) a v1 ttl1 t0) b v2 ttl2 t1) a t2 t2'))
       k3 v3 ttl3 t3) = 1"
    unfolding c3 using h
    by (auto simp add: mc_set_def evict_lru_def new_entry_def new_cache_def Let_def)
qed

text \<open>The general part on \<open>tie_cache\<close>, and the sequence of the claim at times 0, 1, 2, 3.\<close>

theorem set_evicts_first_least_recent_witness:
  "(distinct (map fst (cache tie_cache)) \<and> cache tie_cache \<noteq> [] \<and>
    int (length (cache tie_cache)) \<ge> max_size tie_cache \<and>
    ''c'' \<notin> fst ` set (cache tie_cache)) \<and>
   (\<exists>ys k e zs. cache tie_cache = ys @ (k, e) # zs \<and>
       (\<forall>y\<in>set ys. e_last_accessed e < e_last_accessed (snd y)) \<and>
       (\<forall>z\<in>set zs. e_last_accessed e \<le> e_last_accessed (snd z)) \<and>
       cache (mc_set tie_cache ''c'' 3 None 3) =
         ys @ zs @ [(''c'', new_entry 3 (ttl_or_default None (default_ttl tie_cache)) 3)] \<and>
       evictions (mc_set tie_cache ''c'' 3 None 3) = evictions tie_cache + 1) \<and>
   (''a'' \<noteq> ''b'' \<and> ''c'' \<noteq> ''a'' \<and> ''c'' \<noteq> ''b'' \<and> (1::real) < 2 \<and>
    (2::real) - 0 \<le> real_of_int (ttl_or_default None 3600)) \<and>
   fst (mc_get (mc_set (mc_set (new_cache 2 3600) ''a'' (1::nat) None 0) ''b'' 2 None 1)
          ''a'' 2 2) = Some 1 \<and>
   map fst (cache (mc_set
      (snd (mc_get (mc_set (mc_set (new_cache 2 3600) ''a'' (1::nat) None 0) ''b'' 2 None 1)
              ''a'' 2 2)) ''c'' 3 None 3)) = [''a'', ''c''] \<and>
   evictions (mc_set
      (snd (mc_get (mc_set (mc_set (new_cache 2 3600) ''a'' (1::nat) None 0) ''b'' 2 None 1)
              ''a'' 2 2)) ''c'' 3 None 3) = 1"
proof -
  have h1: "distinct (map fst (cache tie_cache)) \<and> cache tie_cache \<noteq> [] \<and>
    int (length (cache tie_cache)) \<ge> max_size tie_cache \<and>
    ''c'' \<notin> fst ` set (cache tie_cache)"
    by (simp add: tie_cache_def mc_set_def mc_get_def evict_lru_def new_entry_def new_cache_def
      is_expired_def access_def ttl_or_default_def Let_def)
  have h2: "''a'' \<noteq> ''b'' \<and> ''c'' \<noteq> ''a'' \<and> ''c'' \<noteq> ''b'' \<and> (1::real) < 2 \<and>
    (2::real) - 0 \<le> real_of_int (ttl_or_default None 3600)"
    by (simp add: ttl_or_default_def)
  from h1 h2
    set_evicts_first_least_recent [where c = tie_cache and key = "''c''" and v = 3
      and ttl = None and now = 3 and a = "''a''" and b = "''b''" and ?k3.0 = "''c''"
      and ?t1.0 = 1 and ?t2' = 2 and ?t2.0 = 2 and ?t0.0 = 0 and ?ttl1.0 = None
      and dt = 3600 and ?v1.0 = "1::nat" and ?v2.0 = 2 and ?ttl2.0 = None and ?v3.0 = 3
      and ?ttl3.0 = None and ?t3.0 = 3]
  show ?thesis by blast
qed

text \<open>
  Ties are not broken by the creation time: in \<open>tie_cache\<close> both entries were last
  accessed at time 2 and \<open>b\<close> was created first, and inserting \<open>c\<close> evicts \<open>a\<close>.
\<close>

theorem set_evicts_tie_counterexample:
  "cache tie_cache =
     [(''a'', \<lparr>e_value = 1, e_created_at = 2, e_ttl_seconds = 3600, e_access_count = 0,
              e_last_accessed = 2\<rparr>),
      (''b'', \<lparr>e_value = 2, e_created_at = 1, e_ttl_seconds = 3600, e_access_count = 1,
              e_last_accessed = 2\<rparr>)] \<and>
   int (length (cache tie_cache)) = max_size tie_cache \<and>
   map fst (cache (mc_set tie_cache ''c'' 3 None 3)) = [''b'', ''c''] \<and>
   evictions (mc_set tie_cache ''c'' 3 None 3) = 1"
  by (simp add: tie_cache_def mc_set_def mc_get_def evict_lru_def new_entry_def new_cache_def
      is_expired_def access_def ttl_or_default_def Let_def)

text \<open>
  Claim C7, as amended. If the capacity is at least 1, then after any \<open>set\<close> on a cache
  reached from a new cache through any sequence of \<open>set\<close>, \<open>get\<close>, \<open>delete\<close>, \<open>clear\<close> and
  \<open>cleanup_expired\<close> the cache holds at most \<open>max_size\<close> entries. A \<open>set\<close> on a key that is
  present evicts nothing: the counter of evictions, the keys and their order, and every
  other entry stay as they are. After every \<open>set\<close> the entry of the key holds the new
  value, was created and last accessed at the clock reading of the call, and has never
  been read.
\<close>

theorem set_keeps_bound:
  "(1 \<le> ms \<longrightarrow>
      int (length (cache (mc_set (cache_run ms dt ops) key v ttl now))) \<le>
        max_size (mc_set (cache_run ms dt ops) key v ttl now) \<and>
      max_size (mc_set (cache_run ms dt ops) key v ttl now) = ms \<and>
      distinct (map fst (cache (mc_set (cache_run ms dt ops) key v ttl now)))) \<and>
   (key \<in> fst ` set (cache c) \<longrightarrow>
      evictions (mc_set c key v ttl now) = evictions c \<and>
      map fst (cache (mc_set c key v ttl now)) = map fst (cache c) \<and>
      (\<forall>k. k \<noteq> key \<longrightarrow> map_of (cache (mc_set c key v ttl now)) k = map_of (cache c) k)) \<and>
   (\<exists>e. map_of (cache (mc_set c key v ttl now)) key = Some e \<and>
      e_value e = v \<and> e_created_at e = now \<and> e_last_accessed e = now \<and>
      e_access_count e = 0 \<and> e_ttl_seconds e = ttl_or_default ttl (default_ttl c))"
proof -
  have bound: "int (length (cache (mc_set (cache_run ms dt ops) key v ttl now))) \<le>
        max_size (mc_set (cache_run ms dt ops) key v ttl now) \<and>
      max_size (mc_set (cache_run ms dt ops) key v ttl now) = ms \<and>
      distinct (map fst (cache (mc_set (cache_run ms dt ops) key v ttl now)))"
    if ms: "1 \<le> ms"
  proof -
    from cache_run_bound [OF ms, of dt ops]
    have h: "distinct (map fst (cache (cache_run ms dt ops)))"
      "int (length (cache (cache_run ms dt ops))) \<le> max_size (cache_run ms dt ops)"
      "1 \<le> max_size (cache_run ms dt ops)"
      and m: "max_size (cache_run ms dt ops) = ms"
      using ms by simp_all
    from mc_set_bound [OF h, of key v ttl now] m show ?thesis by simp
  qed
  have overwrite: "evictions (mc_set c key v ttl now) = evictions c \<and>
      map fst (cache (mc_set c key v ttl now)) = map fst (cache c) \<and>
      (\<forall>k. k \<noteq> key \<longrightarrow> map_of (cache (mc_set c key v ttl now)) k = map_of (cache c) k)"
    if "key \<in> fst ` set (cache c)"
    using that by (simp add: mc_set_def Let_def update_keys update_conv')
  have fresh: "\<exists>e. map_of (cache (mc_set c key v ttl now)) key = Some e \<and>
      e_value e = v \<and> e_created_at e = now \<and> e_last_accessed e = now \<and>
      e_access_count e = 0 \<and> e_ttl_seconds e = ttl_or_default ttl (default_ttl c)"
    using map_of_set_key [of c key v ttl now] by (simp add: new_entry_def)
  from bound overwrite fresh show ?thesis by blast
qed

text \<open>
  An insertion into the full cache of capacity 2 that four calls have built, and an
  overwrite of the key \<open>a\<close> of \<open>tie_cache\<close>.
\<close>

theorem set_keeps_bound_witness:
  "(1::int) \<le> 2 \<and>
   int (length (cache (mc_set (cache_run 2 3600
     [Op_set ''a'' 1 None 0, Op_set ''b'' 2 None 1, Op_set ''a'' 1 None 2, Op_get ''b'' 2 2])
       ''c'' (3::nat) None 3))) \<le>
     max_size (mc_set (cache_run 2 3600
     [Op_set ''a'' 1 None 0, Op_set ''b'' 2 None 1, Op_set ''a'' 1 None 2, Op_get ''b'' 2 2])
       ''c'' (3::nat) None 3) \<and>
   ''a'' \<in> fst ` set (cache tie_cache) \<and>
   evictions (mc_set tie_cache ''a'' 5 None 3) = evictions tie_cache \<and>
   map fst (cache (mc_set tie_cache ''a'' 5 None 3)) = map fst (cache tie_cache)"
proof -
  have h: "(1::int) \<le> 2" "''a'' \<in> fst ` set (cache tie_cache)"
    by (simp_all add: tie_cache_def mc_set_def mc_get_def evict_lru_def new_entry_def
      new_cache_def is_expired_def access_def ttl_or_default_def Let_def)
  from h set_keeps_bound [of 2 3600
      "[Op_set ''a'' 1 None 0, Op_set ''b'' 2 None 1, Op_set ''a'' 1 None 2, Op_get ''b'' 2 2]"
      "''c''" "3::nat" None 3]
    set_keeps_bound [where key = "''a''" and c = tie_cache and v = 5 and ttl = None and now = 3]
  show ?thesis by blast
qed

text \<open>With capacity 0 the first \<open>set\<close> leaves one entry in the cache.\<close>

theorem set_keeps_bound_counterexample:
  "int (length (cache (mc_set (new_cache 0 3600) ''a'' (1::nat) None 0))) = 1 \<and>
   max_size (mc_set (new_cache 0 3600) ''a'' (1::nat) None 0) = 0"
  by (simp add: mc_set_def evict_lru_def new_cache_def Let_def)

text \<open>
  Claim C10, as amended. \<open>set\<close> with a lifetime of 0 does what \<open>set\<close> without a lifetime
  does: the entry is stored with the default lifetime of the cache. A \<open>get\<close> of the key
  hits as long as the clock is at most \<open>default_ttl\<close> after the clock reading of the
  \<open>set\<close>, so at once when the default lifetime is not negative, and misses after that.
\<close>

theorem set_falsy_ttl_uses_default:
  "mc_set c key v (Some 0) t0 = mc_set c key v None t0 \<and>
   map_of (cache (mc_set c key v (Some 0) t0)) key = Some (new_entry v (default_ttl c) t0) \<and>
   (t1 - t0 \<le> real_of_int (default_ttl c) \<longrightarrow>
      fst (mc_get (mc_set c key v (Some 0) t0) key t1 t2) = Some v) \<and>
   (0 \<le> default_ttl c \<longrightarrow>
      fst (mc_get (mc_set c key v (Some 0) t0) key t0 t2) = Some v) \<and>
   (t1 - t0 > real_of_int (default_ttl c) \<longrightarrow>
      fst (mc_get (mc_set c key v (Some 0) t0) key t1 t2) = None)"
proof -
  have m: "map_of (cache (mc_set c key v (Some 0) t0)) key =
      Some (new_entry v (default_ttl c) t0)"
    using map_of_set_key [of c key v "Some 0" t0] by (simp add: ttl_or_default_def)
  have e: "mc_set c key v (Some 0) t0 = mc_set c key v None t0"
    by (simp add: mc_set_def ttl_or_default_def)
  show ?thesis
    using m e by (simp add: mc_get_def is_expired_def access_def new_entry_def)
qed

text \<open>Default lifetime 3600: a read at times 5 and 0 hits, a read at time 3601 misses.\<close>

theorem set_falsy_ttl_uses_default_witness:
  "(5::real) - 0 \<le> real_of_int (default_ttl (new_cache 2 3600 :: nat MemoryCache)) \<and>
   fst (mc_get (mc_set (new_cache 2 3600) ''k'' (7::nat) (Some 0) 0) ''k'' 5 5) = Some 7 \<and>
   0 \<le> default_ttl (new_cache 2 3600 :: nat MemoryCache) \<and>
   fst (mc_get (mc_set (new_cache 2 3600) ''k'' (7::nat) (Some 0) 0) ''k'' 0 0) = Some 7 \<and>
   (3601::real) - 0 > real_of_int (default_ttl (new_cache 2 3600 :: nat MemoryCache)) \<and>
   fst (mc_get (mc_set (new_cache 2 3600) ''k'' (7::nat) (Some 0) 0) ''k'' 3601 3601) = None"
proof -
  have d: "default_ttl (new_cache 2 3600 :: nat MemoryCache) = 3600"
    by (simp add: new_cache_def)
  show ?thesis
    using set_falsy_ttl_uses_default [where c = "new_cache 2 3600" and key = "''k''"
        and v = "7::nat" and ?t0.0 = 0 and ?t1.0 = 5 and ?t2.0 = 5,
        THEN conjunct2, THEN conjunct2]
      set_falsy_ttl_uses_default [where c = "new_cache 2 3600" and key = "''k''"
        and v = "7::nat" and ?t0.0 = 0 and ?t1.0 = 3601 and ?t2.0 = 3601,
        THEN conjunct2, THEN conjunct2]
      set_falsy_ttl_uses_default [where c = "new_cache 2 3600" and key = "''k''"
        and v = "7::nat" and ?t0.0 = 0 and ?t1.0 = 0 and ?t2.0 = 0,
        THEN conjunct2, THEN conjunct2]
    by (simp add: d)
qed

text \<open>
  With a default lifetime of \<open>-1\<close> the entry set with lifetime 0 is stored with lifetime
  \<open>-1\<close> and a \<open>get\<close> at the clock reading of the \<open>set\<close> misses; with a default lifetime of
  0 the stored lifetime is 0.
\<close>

theorem set_falsy_ttl_uses_default_counterexample:
  "fst (mc_get (mc_set (new_cache 2 (- 1)) ''k'' (7::nat) (Some 0) 0) ''k'' 0 0) = None \<and>
   map_option e_ttl_seconds
     (map_of (cache (mc_set (new_cache 2 (- 1)) ''k'' (7::nat) (Some 0) 0)) ''k'') = Some (- 1) \<and>
   map_option e_ttl_seconds
     (map_of (cache (mc_set (new_cache 2 0) ''k'' (7::nat) (Some 0) 0)) ''k'') = Some 0"
  by (simp add: mc_get_def mc_set_def new_cache_def new_entry_def ttl_or_default_def
      is_expired_def Let_def)

subsection \<open>Key derivation\<close>

text \<open>
  Claim C8. Two lists of keyword arguments with distinct names that hold the same pairs,
  in any order, give the same key, whatever the serialiser and the hash function are.
\<close>

theorem cache_key_permutation:
  assumes "distinct (map fst m1)" and "distinct (map fst m2)" and "set m1 = set m2"
  shows "cache_key json_dumps md5_hexdigest prefix args m1 =
         cache_key json_dumps md5_hexdigest prefix args m2"
proof -
  from assms(1,2) have d: "distinct m1" "distinct m2" and inj: "inj_on fst (set m1)"
    by (simp_all add: distinct_map)
  from d assms(3) have ms: "mset m1 = mset m2"
    by (simp add: set_eq_iff_mset_eq_distinct)
  from ms inj have "sort_key fst m1 = sort_key fst m2"
    by (rule sort_key_eq_sort_key)
  then show ?thesis by (simp add: cache_key_def)
qed

text \<open>The example of the specification: \<open>y = 2, x = 1\<close> against \<open>x = 1, y = 2\<close>.\<close>

theorem cache_key_permutation_witness:
  "\<forall>(json_dumps :: (int, int) key_data \<Rightarrow> py_error + string) md5_hexdigest.
     distinct (map fst [(''y'', 2::int), (''x'', 1)]) \<and>
     distinct (map fst [(''x'', 1::int), (''y'', 2)]) \<and>
     set [(''y'', 2::int), (''x'', 1)] = set [(''x'', 1), (''y'', 2)] \<and>
     cache_key json_dumps md5_hexdigest ''p'' [1, 2] [(''y'', 2), (''x'', 1)] =
     cache_key json_dumps md5_hexdigest ''p'' [1, 2] [(''x'', 1), (''y'', 2)]"
proof (intro allI)
  fix json_dumps :: "(int, int) key_data \<Rightarrow> py_error + string" and md5_hexdigest
  have h: "distinct (map fst [(''y'', 2::int), (''x'', 1)])"
    "distinct (map fst [(''x'', 1::int), (''y'', 2)])"
    "set [(''y'', 2::int), (''x'', 1)] = set [(''x'', 1), (''y'', 2)]"
    by auto
  from h cache_key_permutation [OF h, of json_dumps md5_hexdigest "''p''" "[1, 2]"]
  show "distinct (map fst [(''y'', 2::int), (''x'', 1)]) \<and>
     distinct (map fst [(''x'', 1::int), (''y'', 2)]) \<and>
     set [(''y'', 2::int), (''x'', 1)] = set [(''x'', 1), (''y'', 2)] \<and>
     cache_key json_dumps md5_hexdigest ''p'' [1, 2] [(''y'', 2), (''x'', 1)] =
     cache_key json_dumps md5_hexdigest ''p'' [1, 2] [(''x'', 1), (''y'', 2)]"
    by blast
qed

section \<open>Properties of the task manager\<close>

subsection \<open>Auxiliary facts\<close>


lemma sweep_tasks:
  "tasks (sweep tm cutoff_time) task_id =
     (case tasks tm task_id of
        None \<Rightarrow> None
      | Some task \<Rightarrow> if removable task cutoff_time then None else Some task)"
  by (simp add: sweep_def Let_def split: option.splits)
















subsection \<open>Cancellation\<close>

text \<open>
  Claim C1, as amended. \<open>cancel_task\<close> returns true exactly for an identifier that is in
  the live mapping and whose task has the status RUNNING: it then asks the handle to
  cancel, sets the status to FAILED, the error to the text \<open>Task cancelled\<close> and the
  completion time to now, and leaves every other task and the live mapping as they are
  (the entry of the identifier stays; the wrapper removes it when the execution ends). It
  returns false and changes nothing for an identifier that is not in the live mapping and
  for a task that is not RUNNING, a PENDING one included. A second \<open>cancel_task\<close> on the
  same identifier returns false.
\<close>

theorem cancel_task_running_only:
  "(running_tasks tm task_id = None \<longrightarrow> cancel_task tm task_id now = Inr (False, tm)) \<and>
   (\<forall>h t. running_tasks tm task_id = Some h \<and> tasks tm task_id = Some t \<and>
      t_status t \<noteq> RUNNING \<longrightarrow> cancel_task tm task_id now = Inr (False, tm)) \<and>
   (\<forall>h t. running_tasks tm task_id = Some h \<and> tasks tm task_id = Some t \<and>
      t_status t = RUNNING \<longrightarrow>
      (\<exists>tm'. cancel_task tm task_id now = Inr (True, tm') \<and>
         tasks tm' task_id = Some (t\<lparr>t_status := FAILED, t_error := Some ''Task cancelled'',
                                     t_completed_at := Some now\<rparr>) \<and>
         running_tasks tm' task_id = Some (h\<lparr>cancel_requested := True\<rparr>) \<and>
         (\<forall>i. i \<noteq> task_id \<longrightarrow>
            tasks tm' i = tasks tm i \<and> running_tasks tm' i = running_tasks tm i) \<and>
         cancel_task tm' task_id now' = Inr (False, tm')))"
  by (auto simp add: cancel_task_def)

text \<open>An unknown identifier, the PENDING task of \<open>pending_manager\<close>, and the RUNNING task of \<open>started_world\<close>.\<close>

theorem cancel_task_running_only_witness:
  "running_tasks (mgr init_world :: string TaskManager) ''id1'' = None \<and>
   cancel_task (mgr init_world :: string TaskManager) ''id1'' 2 = Inr (False, mgr init_world) \<and>
   (running_tasks pending_manager ''id1'' = Some \<lparr>cancel_requested = False\<rparr> \<and>
    map_option t_status (tasks pending_manager ''id1'') = Some PENDING) \<and>
   cancel_task pending_manager ''id1'' 2 = Inr (False, pending_manager) \<and>
   (running_tasks (mgr started_world) ''id1'' = Some \<lparr>cancel_requested = False\<rparr> \<and>
    map_option t_status (tasks (mgr started_world) ''id1'') = Some RUNNING) \<and>
   (\<exists>tm'. cancel_task (mgr started_world) ''id1'' 2 = Inr (True, tm') \<and>
      map_option t_status (tasks tm' ''id1'') = Some FAILED \<and>
      map_option t_error (tasks tm' ''id1'') = Some (Some ''Task cancelled'') \<and>
      map_option t_completed_at (tasks tm' ''id1'') = Some (Some 2) \<and>
      running_tasks tm' ''id1'' = Some \<lparr>cancel_requested = True\<rparr> \<and>
      cancel_task tm' ''id1'' 3 = Inr (False, tm'))"
proof -
  have h0: "running_tasks (mgr init_world :: string TaskManager) ''id1'' = None"
    by (simp add: init_world_def new_manager_def)
  have h1: "running_tasks pending_manager ''id1'' = Some \<lparr>cancel_requested = False\<rparr>"
    "tasks pending_manager ''id1'' = Some
       \<lparr>t_id = ''id1'', t_name = ''n'', t_status = PENDING, t_created_at = 0,
        t_started_at = None, t_completed_at = None, t_result = None,
        t_error = None, t_progress = 0\<rparr>"
    by (simp_all add: pending_manager_def)
  have h2: "running_tasks (mgr started_world) ''id1'' = Some \<lparr>cancel_requested = False\<rparr>"
    "tasks (mgr started_world) ''id1'' = Some
       \<lparr>t_id = ''id1'', t_name = ''n'', t_status = RUNNING, t_created_at = 0,
        t_started_at = Some 1, t_completed_at = None, t_result = None,
        t_error = None, t_progress = 0\<rparr>"
    by (simp_all add: started_world_def)
  from h0 cancel_task_running_only [of "mgr init_world :: string TaskManager" "''id1''" 2]
  have a: "cancel_task (mgr init_world :: string TaskManager) ''id1'' 2 = Inr (False, mgr init_world)"
    by blast
  from h1 cancel_task_running_only [of pending_manager "''id1''" 2]
  have b: "cancel_task pending_manager ''id1'' 2 = Inr (False, pending_manager)"
    by auto
  from h2 cancel_task_running_only [of "mgr started_world" "''id1''" 2 3]
  have c: "\<exists>tm'. cancel_task (mgr started_world) ''id1'' 2 = Inr (True, tm') \<and>
      map_option t_status (tasks tm' ''id1'') = Some FAILED \<and>
      map_option t_error (tasks tm' ''id1'') = Some (Some ''Task cancelled'') \<and>
      map_option t_completed_at (tasks tm' ''id1'') = Some (Some 2) \<and>
      running_tasks tm' ''id1'' = Some \<lparr>cancel_requested = True\<rparr> \<and>
      cancel_task tm' ''id1'' 3 = Inr (False, tm')"
    by auto
  from h0 h1 h2 a b c show ?thesis by simp
qed

text \<open>
  Right after \<open>create_task\<close> the task is in the live mapping and PENDING, and
  \<open>cancel_task\<close> returns false and leaves it PENDING. After \<open>cancel_task\<close> on the
  RUNNING task of \<open>started_world\<close> its identifier is still in the live mapping.
\<close>

theorem cancel_task_pending_counterexample:
  "snd (create_task new_manager ''n'' ''id1'' 0) = pending_manager \<and>
   running_tasks pending_manager ''id1'' = Some \<lparr>cancel_requested = False\<rparr> \<and>
   map_option t_status (tasks pending_manager ''id1'') = Some PENDING \<and>
   cancel_task pending_manager ''id1'' 1 = Inr (False, pending_manager) \<and>
   map_option t_status (tasks (mgr started_world) ''id1'') = Some RUNNING \<and>
   cancel_task (mgr started_world) ''id1'' 2 = Inr (True, cancelled_manager) \<and>
   running_tasks cancelled_manager ''id1'' = Some \<lparr>cancel_requested = True\<rparr>"
  by (simp add: create_task_def new_manager_def pending_manager_def cancel_task_def Let_def
      started_world_def cancelled_manager_def)

subsection \<open>Cleaning up\<close>

text \<open>
  Claim C2. The claim is that \<open>cleanup_old_tasks\<close> returns normally and removes the old
  terminal tasks. On every manager, for every age and at every time, the call raises
  \<^verbatim>\<open>NameError\<close> instead, since tasks.py never binds \<^verbatim>\<open>timedelta\<close>, and removes nothing.
\<close>

theorem cleanup_old_tasks_name_error:
  "cleanup_old_tasks tm max_age_hours now = Inl (NameError ''timedelta'')"
  by (simp add: cleanup_old_tasks_def tasks_module_names_def)

subsection \<open>Results and errors\<close>







end
